theory Spec2Isabelle
  imports Main "HOL-Library.AList" "HOL-Library.Multiset"
begin

section \<open>The tunnel agent (tunnel-agent.ts)\<close>

text \<open>
  A socket and a \<open>createConnection\<close> callback are objects of the runtime; the model
  names each by a number. A handler of the source becomes a function from the agent's
  state to the new state and the list of effects it performed, in the order of the
  source. Logging (\<open>console.log\<close>, \<open>debug\<close>) is left out.
\<close>

type_synonym sock = nat
type_synonym cb = nat

datatype agent_event = Online | Offline | End

text \<open>The errors of the source by their message (\<open>closed\<close>, \<open>already started\<close>), and any
  other error a promise is rejected with.\<close>

datatype error = Closed | AlreadyStarted | Failed

datatype action =
    Emit agent_event
  | SocketDestroy sock
  | Invoke cb "error option" "sock option"
  | SetTimeout cb sock
  | ServerClose
  | SuperDestroy

text \<open>
  The fields of class \<open>TunnelAgent\<close>, followed by the part of the runtime the handlers
  register with: the sockets that carry the \<open>once('close')\<close> and the \<open>once('error')\<close>
  listener of \<open>_onConnection\<close>, the callbacks scheduled with \<open>setTimeout(..., 0)\<close> that
  have not run yet (timers of equal delay run in the order they were set), and the
  name the next accepted socket object gets.
\<close>

record agent =
  availableSockets :: "sock list"
  waitingCreateConn :: "cb list"
  connectedSockets :: int
  maxTcpSockets :: int
  started :: bool
  closed :: bool
  closeOnce :: "sock list"
  errorOnce :: "sock list"
  timeouts :: "(cb \<times> sock) list"
  nextSocket :: sock

definition DEFAULT_MAX_SOCKETS :: int where
  "DEFAULT_MAX_SOCKETS = 10"

text \<open>The constructor; \<open>options.maxTcpSockets || DEFAULT_MAX_SOCKETS\<close> takes the
  default when the option is absent or 0.\<close>

definition TunnelAgent_new :: "int option \<Rightarrow> agent" where
  "TunnelAgent_new maxTcpSocketsOpt =
     \<lparr> availableSockets = [],
       waitingCreateConn = [],
       connectedSockets = 0,
       maxTcpSockets =
         (case maxTcpSocketsOpt of
            None \<Rightarrow> DEFAULT_MAX_SOCKETS
          | Some n \<Rightarrow> if n = 0 then DEFAULT_MAX_SOCKETS else n),
       started = False,
       closed = False,
       closeOnce = [],
       errorOnce = [],
       timeouts = [],
       nextSocket = 0 \<rparr>"

definition stats :: "agent \<Rightarrow> int" where
  "stats a = connectedSockets a"

text \<open>\<open>listen\<close> throws when called twice; otherwise it installs the handlers and
  returns a promise, which the listener settles later.\<close>

definition listen :: "agent \<Rightarrow> error + agent" where
  "listen a = (if started a then Inl AlreadyStarted else Inr (a\<lparr>started := True\<rparr>))"

text \<open>\<open>_onClose\<close>, the handler of the listener's \<open>close\<close> event.\<close>

definition onClose :: "agent \<Rightarrow> agent \<times> action list" where
  "onClose a =
     (a\<lparr>closed := True, waitingCreateConn := []\<rparr>,
      map (\<lambda>conn. Invoke conn (Some Closed) None) (waitingCreateConn a) @ [Emit End])"

text \<open>The \<open>once('close')\<close> listener that \<open>_onConnection\<close> installs on an admitted
  socket. \<open>indexOf\<close> and \<open>splice(idx, 1)\<close> remove the first occurrence.\<close>

definition onSocketClose :: "agent \<Rightarrow> sock \<Rightarrow> agent \<times> action list" where
  "onSocketClose a socket =
     (let a1 = a\<lparr>connectedSockets := connectedSockets a - 1\<rparr>;
          a2 = (if socket \<in> set (availableSockets a1)
                then a1\<lparr>availableSockets := remove1 socket (availableSockets a1)\<rparr>
                else a1)
      in (a2, if connectedSockets a2 \<le> 0 then [Emit Offline] else []))"

text \<open>\<open>_onConnection\<close>, the handler of the listener's \<open>connection\<close> event.\<close>

definition onConnection :: "agent \<Rightarrow> sock \<Rightarrow> agent \<times> action list" where
  "onConnection a socket =
     (if connectedSockets a \<ge> maxTcpSockets a then (a, [SocketDestroy socket])
      else
        let a1 = a\<lparr>closeOnce := closeOnce a @ [socket],
                    errorOnce := errorOnce a @ [socket]\<rparr>;
            online = (if connectedSockets a1 = 0 then [Emit Online] else []);
            a2 = a1\<lparr>connectedSockets := connectedSockets a1 + 1\<rparr>
        in case waitingCreateConn a2 of
             fn # rest \<Rightarrow>
               (a2\<lparr>waitingCreateConn := rest, timeouts := timeouts a2 @ [(fn, socket)]\<rparr>,
                online @ [SetTimeout fn socket])
           | [] \<Rightarrow>
               (a2\<lparr>availableSockets := availableSockets a2 @ [socket]\<rparr>, online))"

text \<open>\<open>createConnection(client, cb)\<close>; the first argument is not used.\<close>

definition createConnection :: "agent \<Rightarrow> cb \<Rightarrow> agent \<times> action list" where
  "createConnection a cb =
     (if closed a then (a, [Invoke cb (Some Closed) None])
      else
        case availableSockets a of
          [] \<Rightarrow> (a\<lparr>waitingCreateConn := waitingCreateConn a @ [cb]\<rparr>, [])
        | sock # rest \<Rightarrow> (a\<lparr>availableSockets := rest\<rparr>, [Invoke cb None (Some sock)]))"

text \<open>\<open>destroy\<close> asks the listener to close and calls \<open>http.Agent.destroy\<close>; it
  writes no field of the agent.\<close>

definition destroy :: "agent \<Rightarrow> agent \<times> action list" where
  "destroy a = (a, [ServerClose, SuperDestroy])"

subsection \<open>The runtime's events\<close>

text \<open>
  What the runtime does to one agent: it accepts a socket (a new object each time),
  reports a socket's \<open>close\<close> or \<open>error\<close> (running the \<open>once\<close> listener if the socket
  still carries it), runs the oldest pending timer, reports the listener's \<open>close\<close>; and
  what callers do: \<open>createConnection\<close> and \<open>destroy\<close>.
\<close>

datatype event =
    Connection
  | SocketClose sock
  | SocketError sock
  | CreateConnection cb
  | Destroy
  | ServerClosed
  | Timeout

definition socketClose :: "agent \<Rightarrow> sock \<Rightarrow> agent \<times> action list" where
  "socketClose a s =
     (if s \<in> set (closeOnce a)
      then onSocketClose (a\<lparr>closeOnce := remove1 s (closeOnce a)\<rparr>) s
      else (a, []))"

definition socketError :: "agent \<Rightarrow> sock \<Rightarrow> agent \<times> action list" where
  "socketError a s =
     (if s \<in> set (errorOnce a)
      then (a\<lparr>errorOnce := remove1 s (errorOnce a)\<rparr>, [SocketDestroy s])
      else (a, []))"

definition runTimeout :: "agent \<Rightarrow> agent \<times> action list" where
  "runTimeout a =
     (case timeouts a of
        [] \<Rightarrow> (a, [])
      | (fn, socket) # rest \<Rightarrow> (a\<lparr>timeouts := rest\<rparr>, [Invoke fn None (Some socket)]))"

fun step :: "agent \<Rightarrow> event \<Rightarrow> agent \<times> action list" where
  "step a Connection = onConnection (a\<lparr>nextSocket := Suc (nextSocket a)\<rparr>) (nextSocket a)"
| "step a (SocketClose s) = socketClose a s"
| "step a (SocketError s) = socketError a s"
| "step a (CreateConnection cb) = createConnection a cb"
| "step a Destroy = destroy a"
| "step a ServerClosed = onClose a"
| "step a Timeout = runTimeout a"

fun run :: "agent \<Rightarrow> event list \<Rightarrow> agent \<times> action list" where
  "run a [] = (a, [])"
| "run a (e # es) =
     (let (a1, acts1) = step a e; (a2, acts2) = run a1 es in (a2, acts1 @ acts2))"

subsection \<open>What holds of every state the runtime can reach\<close>

text \<open>
  The counter equals the number of sockets that still carry the \<open>close\<close> listener; a
  socket carries it at most once and has a name already given out; and a socket is never
  idle while a callback waits.
\<close>

definition agent_inv :: "agent \<Rightarrow> bool" where
  "agent_inv a \<longleftrightarrow>
     connectedSockets a = int (length (closeOnce a))
     \<and> distinct (closeOnce a)
     \<and> (\<forall>s \<in> set (closeOnce a). s < nextSocket a)
     \<and> (waitingCreateConn a = [] \<or> availableSockets a = [])"

text \<open>A socket whose listener has run and whose name has been given out carries no
  listener again.\<close>

definition spent :: "sock \<Rightarrow> agent \<Rightarrow> bool" where
  "spent s a \<longleftrightarrow> s \<notin> set (closeOnce a) \<and> s < nextSocket a"

subsection \<open>Requests and sockets in arrival order\<close>


fun calls :: "event list \<Rightarrow> cb list" where
  "calls [] = []"
| "calls (CreateConnection cb # es) = cb # calls es"
| "calls (e # es) = calls es"



section \<open>The client (client.ts)\<close>

text \<open>
  The fields of class \<open>Client\<close>: its identifier, its agent, and whether the grace timer
  is pending. The constructor arms the timer; the agent's \<open>online\<close> clears it, its
  \<open>offline\<close> clears and arms it again, and the timer's expiry and the agent's \<open>error\<close>
  call \<open>close\<close>. \<open>closeListener\<close> is the listener a manager registers with
  \<open>once('close')\<close>, kept by the identifier it removes; \<open>None\<close> once it has run.
\<close>

datatype client_action = ClearTimeout | AgentAction action | EmitClose

record client =
  clientId :: string
  agent :: agent
  graceTimeout :: bool
  closeListener :: "string option"

definition Client_new :: "string \<Rightarrow> agent \<Rightarrow> client" where
  "Client_new ident a =
     \<lparr> clientId = ident, agent = a, graceTimeout = True, closeListener = None \<rparr>"

definition Client_onOnline :: "client \<Rightarrow> client" where
  "Client_onOnline c = c\<lparr>graceTimeout := False\<rparr>"

definition Client_onOffline :: "client \<Rightarrow> client" where
  "Client_onOffline c = c\<lparr>graceTimeout := True\<rparr>"

definition Client_stats :: "client \<Rightarrow> int" where
  "Client_stats c = stats (agent c)"

definition Client_close :: "client \<Rightarrow> client \<times> client_action list" where
  "Client_close c =
     (let (a, acts) = destroy (agent c)
      in (c\<lparr>graceTimeout := False, agent := a\<rparr>,
          ClearTimeout # map AgentAction acts @ [EmitClose]))"

text \<open>\<open>close\<close> called \<open>n\<close> times in a row.\<close>

fun closeTimes :: "nat \<Rightarrow> client \<Rightarrow> client \<times> client_action list" where
  "closeTimes 0 c = (c, [])"
| "closeTimes (Suc n) c =
     (let (c1, acts1) = Client_close c; (c2, acts2) = closeTimes n c1 in (c2, acts1 @ acts2))"

section \<open>Forwarding a request and an upgrade (client.ts)\<close>

type_synonym headers = "(string \<times> string) list"

text \<open>The fields of the external request that the forwarders read (\<open>method'\<close> is
  its \<open>method\<close>), of the external response, and of the external socket.\<close>

record incoming_message =
  method' :: string
  url :: string
  httpVersion :: string
  headers :: headers
  rawHeaders :: "string list"

record server_response =
  headersSent :: bool
  statusCode :: nat

record external_socket =
  readable :: bool
  writable :: bool

datatype stream = ExternalReq | ExternalRes | ClientReq | ClientRes

datatype request_action =
    HttpRequest string string headers
  | Pump stream stream
  | WriteHead nat headers

datatype upstream_event = Response "nat option" headers | UpstreamError

text \<open>
  \<open>handleRequest\<close> opens the upstream request with the external request's path, method
  and headers and pipes the external request into it. Two things can then happen to the
  upstream request: a response arrives, whose status (500 when absent or 0) and headers
  are written to the external response before the body is piped; or it fails, and the
  \<open>error\<close> listener of the source has an empty body.
\<close>

definition handleRequest :: "incoming_message \<Rightarrow> request_action list" where
  "handleRequest req =
     [HttpRequest (url req) (method' req) (headers req), Pump ExternalReq ClientReq]"

fun clientReqEvent ::
  "server_response \<Rightarrow> upstream_event \<Rightarrow> server_response \<times> request_action list" where
  "clientReqEvent res (Response status hdrs) =
     (let code = (case status of None \<Rightarrow> 500 | Some n \<Rightarrow> if n = 0 then 500 else n)
      in (res\<lparr>headersSent := True, statusCode := code\<rparr>,
          [WriteHead code hdrs, Pump ClientRes ExternalRes]))"
| "clientReqEvent res UpstreamError = (res, [])"

text \<open>
  \<open>handleUpgrade\<close> asks the agent for a socket; the callback it passes is
  \<open>upgradeCallback\<close>. \<open>join\<close> is \<open>Array.prototype.join\<close>, and \<open>headerLoop\<close> the \<open>for\<close>
  loop over \<open>rawHeaders\<close> (index \<open>i\<close>, step 2, while \<open>i < length - 1\<close>).

  The strings of a request are those the HTTP parser of the runtime builds: one
  character for each byte received (Latin-1), so a character has a code from 0 to 255
  and is a \<open>char\<close> of HOL. A byte is a \<open>char\<close> of HOL as well. \<open>conn.write(str)\<close> is
  called with no encoding, and \<open>net.Socket.write\<close> then sends the UTF-8 encoding of the
  string: a character below 0x80 as one byte, a character \<open>c\<close> from 0x80 to 0xFF as the
  two bytes \<open>0xC0 + c div 64\<close> and \<open>0x80 + c mod 64\<close>. \<open>ConnWrite\<close> carries the bytes sent.
\<close>

type_synonym bytes = "char list"

datatype upgrade_action =
    SocketEnd
  | ConnDestroy sock
  | PumpConnToSocket sock
  | PumpSocketToConn sock
  | ConnWrite sock bytes

definition CRLF :: string where
  "CRLF = [CHR 0x0D, CHR 0x0A]"

fun join :: "string \<Rightarrow> string list \<Rightarrow> string" where
  "join sep [] = []"
| "join sep [x] = x"
| "join sep (x # y # ys) = x @ sep @ join sep (y # ys)"

function headerLoop :: "string list \<Rightarrow> nat \<Rightarrow> string list \<Rightarrow> string list" where
  "headerLoop raw i arr =
     (if int i < int (length raw) - 1
      then headerLoop raw (i + 2) (arr @ [raw ! i @ '': '' @ raw ! (i + 1)])
      else arr)"
  by pat_completeness auto
termination
  by (relation "measure (\<lambda>(raw, i, arr). length raw - i)") auto

definition prologue :: "incoming_message \<Rightarrow> string" where
  "prologue req =
     join CRLF
       (headerLoop (rawHeaders req) 0
          [method' req @ '' '' @ url req @ '' HTTP/'' @ httpVersion req]
        @ ['''', ''''])"

definition utf8_char :: "char \<Rightarrow> bytes" where
  "utf8_char c =
     (if (of_char c :: nat) < 128 then [c]
      else [char_of (192 + (of_char c :: nat) div 64), char_of (128 + (of_char c :: nat) mod 64)])"

definition utf8 :: "string \<Rightarrow> bytes" where
  "utf8 s = concat (map utf8_char s)"

definition handleUpgrade :: "client \<Rightarrow> cb \<Rightarrow> client \<times> action list" where
  "handleUpgrade c cb =
     (let (a, acts) = createConnection (agent c) cb in (c\<lparr>agent := a\<rparr>, acts))"

definition upgradeCallback ::
  "incoming_message \<Rightarrow> external_socket \<Rightarrow> error option \<Rightarrow> sock option \<Rightarrow> upgrade_action list" where
  "upgradeCallback req socket err conn =
     (if err \<noteq> None then [SocketEnd]
      else case conn of
        None \<Rightarrow> [SocketEnd]
      | Some c \<Rightarrow>
          if \<not> readable socket \<or> \<not> writable socket then [ConnDestroy c, SocketEnd]
          else [PumpConnToSocket c, PumpSocketToConn c, ConnWrite c (utf8 (prologue req))])"

text \<open>
  The prologue in the specification's words: the request line, then each name/value
  pair of the raw headers in order, each line ended by CRLF, then a blank line.
\<close>

fun headerPairs :: "string list \<Rightarrow> (string \<times> string) list" where
  "headerPairs (name # val # rest) = (name, val) # headerPairs rest"
| "headerPairs rest = []"

definition prologue_spec :: "string \<Rightarrow> string \<Rightarrow> string \<Rightarrow> (string \<times> string) list \<Rightarrow> string" where
  "prologue_spec meth target version pairs =
     meth @ '' '' @ target @ '' HTTP/'' @ version @ CRLF
     @ concat (map (\<lambda>(name, val). name @ '': '' @ val @ CRLF) pairs)
     @ CRLF"

text \<open>A string all of whose characters are below 0x80.\<close>

definition ascii :: "string \<Rightarrow> bool" where
  "ascii s = list_all (\<lambda>c. (of_char c :: nat) < 128) s"

declare headerLoop.simps [simp del]

section \<open>The client manager (class ClientManager)\<close>

text \<open>
  \<open>clients\<close> is the \<open>Map\<close> from identifier to \<open>Client\<close>, in insertion order; a \<open>Client\<close>
  object is kept in \<open>objects\<close> and named by its position there. \<open>hriCalls\<close> counts the
  calls of \<open>hri.random()\<close>; what a call returns is given from outside.
\<close>

record manager =
  max_tcp_sockets :: "int option"
  clients :: "(string \<times> nat) list"
  tunnels :: int
  objects :: "client list"
  hriCalls :: nat

definition ClientManager_new :: "int option \<Rightarrow> manager" where
  "ClientManager_new opt =
     \<lparr> max_tcp_sockets = opt, clients = [], tunnels = 0, objects = [], hriCalls = 0 \<rparr>"

definition hasClient :: "manager \<Rightarrow> string \<Rightarrow> bool" where
  "hasClient m ident \<longleftrightarrow> map_of (clients m) ident \<noteq> None"

definition getClient :: "manager \<Rightarrow> string \<Rightarrow> nat option" where
  "getClient m ident = map_of (clients m) ident"

text \<open>The number of clients whose \<open>close\<close> listener has not run yet.\<close>

definition listening :: "manager \<Rightarrow> nat" where
  "listening m = length (filter (\<lambda>c. closeListener c \<noteq> None) (objects m))"

lemma filter_update_less:
  "i < length xs \<Longrightarrow> P (xs ! i) \<Longrightarrow> \<not> P y \<Longrightarrow>
   length (filter P (xs[i := y])) < length (filter P xs)"
proof (induction xs arbitrary: i)
  case Nil then show ?case by simp
next
  case (Cons x xs)
  then show ?case by (cases i) auto
qed

text \<open>
  \<open>removeClient\<close>, and \<open>client.close()\<close> as the manager sees it: \<open>close\<close> emits \<open>close\<close>,
  which runs the \<open>once\<close> listener of \<open>newClient\<close> if it is still registered, and that
  listener calls \<open>removeClient\<close> again. Every reference in the registry names an object;
  for a number that names none, \<open>closeClient\<close> does nothing.
\<close>

function removeClient :: "manager \<Rightarrow> string \<Rightarrow> manager"
  and closeClient :: "manager \<Rightarrow> nat \<Rightarrow> manager" where
  "removeClient m ident =
     (case map_of (clients m) ident of
        None \<Rightarrow> m
      | Some c \<Rightarrow>
          closeClient
            (m\<lparr>tunnels := tunnels m - 1, clients := AList.delete ident (clients m)\<rparr>) c)"
| "closeClient m c =
     (if c < length (objects m) then
        let obj = fst (Client_close (objects m ! c)) in
        case closeListener obj of
          None \<Rightarrow> m\<lparr>objects := (objects m)[c := obj]\<rparr>
        | Some ident \<Rightarrow>
            removeClient (m\<lparr>objects := (objects m)[c := obj\<lparr>closeListener := None\<rparr>]\<rparr>) ident
      else m)"
  by pat_completeness auto
termination
proof (relation "measure (\<lambda>x. case x of
          Inl (m, ident) \<Rightarrow> 2 * listening m + 1
        | Inr (m, c) \<Rightarrow> 2 * listening m)")
  show "wf (measure (\<lambda>x. case x of
          Inl (m, ident) \<Rightarrow> 2 * listening m + 1
        | Inr (m, c) \<Rightarrow> 2 * listening m))" by simp
next
  fix m :: manager and ident :: string and c :: nat
  assume "map_of (clients m) ident = Some c"
  show "(Inr (m\<lparr>tunnels := tunnels m - 1, clients := AList.delete ident (clients m)\<rparr>, c),
         Inl (m, ident))
        \<in> measure (\<lambda>x. case x of
          Inl (m, ident) \<Rightarrow> 2 * listening m + 1
        | Inr (m, c) \<Rightarrow> 2 * listening m)"
    by (simp add: listening_def)
next
  fix m :: manager and c :: nat and obj :: client and ident :: string
  assume c: "c < length (objects m)"
    and obj: "obj = fst (Client_close (objects m ! c))"
    and l: "closeListener obj = Some ident"
  have "closeListener (objects m ! c) \<noteq> None"
    using obj l by (simp add: Client_close_def destroy_def)
  from filter_update_less [of c "objects m" "\<lambda>c. closeListener c \<noteq> None", OF c this]
  have "listening (m\<lparr>objects := (objects m)[c := obj\<lparr>closeListener := None\<rparr>]\<rparr>) < listening m"
    by (simp add: listening_def)
  then show "(Inl (m\<lparr>objects := (objects m)[c := obj\<lparr>closeListener := None\<rparr>]\<rparr>, ident),
         Inr (m, c))
        \<in> measure (\<lambda>x. case x of
          Inl (m, ident) \<Rightarrow> 2 * listening m + 1
        | Inr (m, c) \<Rightarrow> 2 * listening m)"
    by simp
qed

declare removeClient.simps [simp del] closeClient.simps [simp del]

text \<open>
  \<open>newClient\<close> in two parts, split at its \<open>await\<close>: up to the call of \<open>agent.listen()\<close>,
  and from the moment the promise settles (with a port, or with an error). \<open>generated\<close>
  is what \<open>hri.random()\<close> returns if it is called.
\<close>

record pending =
  chosenId :: string
  maxSockets :: int
  clientRef :: nat
  listenThrew :: "error option"

record client_info =
  id' :: string
  port :: nat
  max_conn_count :: int

definition newClient_begin :: "manager \<Rightarrow> string \<Rightarrow> string \<Rightarrow> manager \<times> pending" where
  "newClient_begin m requested generated =
     (let (ident, m1) =
            (if hasClient m requested
             then (generated, m\<lparr>hriCalls := Suc (hriCalls m)\<rparr>)
             else (requested, m));
          maxSockets =
            (case max_tcp_sockets m1 of None \<Rightarrow> 10 | Some n \<Rightarrow> if n = 0 then 10 else n);
          a = TunnelAgent_new (Some maxSockets);
          client = Client_new ident a;
          ref = length (objects m1);
          m2 = m1\<lparr>objects := objects m1 @ [client],
                    clients := AList.update ident ref (clients m1)\<rparr>;
          m3 = m2\<lparr>objects := (objects m2)[ref := (objects m2 ! ref)\<lparr>closeListener := Some ident\<rparr>]\<rparr>
      in case listen a of
           Inl e \<Rightarrow>
             (m3, \<lparr>chosenId = ident, maxSockets = maxSockets, clientRef = ref,
                    listenThrew = Some e\<rparr>)
         | Inr a' \<Rightarrow>
             (m3\<lparr>objects := (objects m3)[ref := (objects m3 ! ref)\<lparr>agent := a'\<rparr>]\<rparr>,
              \<lparr>chosenId = ident, maxSockets = maxSockets, clientRef = ref,
               listenThrew = None\<rparr>))"

definition newClient_settle ::
  "manager \<Rightarrow> pending \<Rightarrow> error + nat \<Rightarrow> manager \<times> (error + client_info)" where
  "newClient_settle m p outcome =
     (case (case listenThrew p of Some e \<Rightarrow> Inl e | None \<Rightarrow> outcome) of
        Inr prt \<Rightarrow>
          (m\<lparr>tunnels := tunnels m + 1\<rparr>,
           Inr \<lparr>id' = chosenId p, port = prt, max_conn_count = maxSockets p\<rparr>)
      | Inl err \<Rightarrow> (removeClient m (chosenId p), Inl err))"

text \<open>The grace timer of client \<open>c\<close> expires.\<close>

definition graceTimeoutFired :: "manager \<Rightarrow> nat \<Rightarrow> manager" where
  "graceTimeoutFired m c =
     (if c < length (objects m) \<and> graceTimeout (objects m ! c) then closeClient m c else m)"

section \<open>Properties of the tunnel agent\<close>

subsection \<open>Invariants\<close>

lemma agent_inv_new: "agent_inv (TunnelAgent_new opt)"
  by (simp add: agent_inv_def TunnelAgent_new_def)

lemma agent_inv_onConnection:
  assumes "agent_inv a" "\<forall>x \<in> set (closeOnce a). x \<noteq> s" "s < nextSocket a"
  shows "agent_inv (fst (onConnection a s))"
  using assms by (auto simp: agent_inv_def onConnection_def Let_def split: list.splits)

lemma int_length_remove1:
  "s \<in> set xs \<Longrightarrow> int (length (remove1 s xs)) = int (length xs) - 1"
  by (induction xs) auto

lemma agent_inv_socketClose: "agent_inv a \<Longrightarrow> agent_inv (fst (socketClose a s))"
  by (auto simp: agent_inv_def socketClose_def onSocketClose_def Let_def int_length_remove1
      dest: notin_set_remove1 split: if_splits)

lemma agent_inv_step: "agent_inv a \<Longrightarrow> agent_inv (fst (step a e))"
proof (cases e)
  case Connection
  assume i: "agent_inv a"
  let ?b = "a\<lparr>nextSocket := Suc (nextSocket a)\<rparr>"
  from i have "agent_inv ?b" by (auto simp: agent_inv_def)
  moreover from i have "\<forall>x \<in> set (closeOnce ?b). x \<noteq> nextSocket a" by (auto simp: agent_inv_def)
  ultimately show ?thesis using Connection agent_inv_onConnection [of ?b "nextSocket a"] by simp
next
  case (SocketClose s)
  assume "agent_inv a" then show ?thesis using SocketClose by (simp add: agent_inv_socketClose)
next
  case (SocketError s)
  assume "agent_inv a" then show ?thesis using SocketError by (auto simp: agent_inv_def socketError_def)
next
  case (CreateConnection cb)
  assume "agent_inv a" then show ?thesis using CreateConnection
    by (auto simp: agent_inv_def createConnection_def split: list.splits)
next
  case Destroy
  assume "agent_inv a" then show ?thesis using Destroy by (simp add: destroy_def)
next
  case ServerClosed
  assume "agent_inv a" then show ?thesis using ServerClosed by (auto simp: agent_inv_def onClose_def)
next
  case Timeout
  assume "agent_inv a" then show ?thesis using Timeout
    by (auto simp: agent_inv_def runTimeout_def split: list.splits)
qed

lemma fst_run_Cons: "fst (run a (e # es)) = fst (run (fst (step a e)) es)"
  by (simp add: split_beta)


lemma agent_inv_run: "agent_inv a \<Longrightarrow> agent_inv (fst (run a es))"
proof (induction es arbitrary: a)
  case Nil then show ?case by simp
next
  case (Cons e es)
  then show ?case unfolding fst_run_Cons by (simp add: agent_inv_step)
qed

lemma maxTcpSockets_step: "maxTcpSockets (fst (step a e)) = maxTcpSockets a"
  by (cases e)
     (auto simp: onConnection_def socketClose_def onSocketClose_def socketError_def
        createConnection_def destroy_def onClose_def runTimeout_def Let_def
        split: list.splits)

lemma maxTcpSockets_run: "maxTcpSockets (fst (run a es)) = maxTcpSockets a"
proof (induction es arbitrary: a)
  case Nil then show ?case by simp
next
  case (Cons e es)
  then show ?case unfolding fst_run_Cons by (simp add: maxTcpSockets_step)
qed

lemma below_cap_step:
  "connectedSockets a \<le> maxTcpSockets a \<Longrightarrow>
   connectedSockets (fst (step a e)) \<le> maxTcpSockets a"
  by (cases e)
     (auto simp: onConnection_def socketClose_def onSocketClose_def socketError_def
        createConnection_def destroy_def onClose_def runTimeout_def Let_def
        split: list.splits)

lemma below_cap_run:
  "connectedSockets a \<le> maxTcpSockets a \<Longrightarrow>
   connectedSockets (fst (run a es)) \<le> maxTcpSockets a"
proof (induction es arbitrary: a)
  case Nil then show ?case by simp
next
  case (Cons e es)
  from Cons.prems have "connectedSockets (fst (step a e)) \<le> maxTcpSockets (fst (step a e))"
    by (simp add: below_cap_step maxTcpSockets_step)
  from Cons.IH [OF this] show ?case unfolding fst_run_Cons by (simp add: maxTcpSockets_step)
qed

lemma spent_step: "spent s a \<Longrightarrow> spent s (fst (step a e))"
  by (cases e)
     (auto simp: spent_def onConnection_def socketClose_def onSocketClose_def socketError_def
        createConnection_def destroy_def onClose_def runTimeout_def Let_def
        dest: notin_set_remove1 split: list.splits)

lemma spent_run: "spent s a \<Longrightarrow> spent s (fst (run a es))"
proof (induction es arbitrary: a)
  case Nil then show ?case by simp
next
  case (Cons e es)
  then show ?case unfolding fst_run_Cons by (simp add: spent_step)
qed

lemma spent_after_close:
  assumes "agent_inv a" "s \<in> set (closeOnce a)"
  shows "spent s (fst (socketClose a s))"
  using assms
  by (auto simp: spent_def agent_inv_def socketClose_def onSocketClose_def Let_def)

lemma socketClose_spent: "spent s a \<Longrightarrow> socketClose a s = (a, [])"
  by (simp add: spent_def socketClose_def)

lemma socketClose_decrements:
  "s \<in> set (closeOnce a) \<Longrightarrow>
   connectedSockets (fst (socketClose a s)) = connectedSockets a - 1"
  by (simp add: socketClose_def onSocketClose_def Let_def)

subsection \<open>The cap on admitted sockets\<close>

lemma negative_cap_step:
  "maxTcpSockets a < 0 \<Longrightarrow> connectedSockets a = 0 \<Longrightarrow> closeOnce a = [] \<Longrightarrow>
   maxTcpSockets (fst (step a e)) < 0 \<and> connectedSockets (fst (step a e)) = 0
   \<and> closeOnce (fst (step a e)) = []"
  by (cases e)
     (auto simp: onConnection_def socketClose_def socketError_def
        createConnection_def destroy_def onClose_def runTimeout_def
        split: list.splits)

lemma negative_cap_run:
  "maxTcpSockets a < 0 \<Longrightarrow> connectedSockets a = 0 \<Longrightarrow> closeOnce a = [] \<Longrightarrow>
   connectedSockets (fst (run a es)) = 0"
proof (induction es arbitrary: a)
  case Nil then show ?case by simp
next
  case (Cons e es)
  from negative_cap_step [OF Cons.prems, of e] Cons.IH show ?case
    unfolding fst_run_Cons by blast
qed

lemma maxTcpSockets_new:
  "maxTcpSockets (TunnelAgent_new opt)
     = (case opt of None \<Rightarrow> 10 | Some n \<Rightarrow> if n = 0 then 10 else n)"
  by (simp add: TunnelAgent_new_def DEFAULT_MAX_SOCKETS_def split: option.splits)

text \<open>
  C6, as the code has it. The cap of an agent is the option it was built with, or 10
  when the option is absent or 0; a negative option is kept. For every sequence of
  events, in the state \<open>a\<close> reached: \<open>0 \<le> connectedSockets\<close>; when the cap is not
  negative, \<open>connectedSockets \<le> maxTcpSockets\<close>; when the cap is negative, no socket is
  ever admitted and \<open>connectedSockets\<close> is 0. A socket accepted while
  \<open>connectedSockets \<ge> maxTcpSockets\<close> is destroyed and the state is left as it was (the
  socket is not counted); and the \<open>close\<close> of an admitted socket lowers
  \<open>connectedSockets\<close> by one, after which no later \<open>close\<close> of that socket has an effect.
\<close>

theorem connectedSockets_bounded:
  "let a = fst (run (TunnelAgent_new opt) evs) in
     maxTcpSockets a = (case opt of None \<Rightarrow> 10 | Some n \<Rightarrow> if n = 0 then 10 else n)
   \<and> 0 \<le> connectedSockets a
   \<and> (0 \<le> maxTcpSockets a \<longrightarrow> connectedSockets a \<le> maxTcpSockets a)
   \<and> (maxTcpSockets a < 0 \<longrightarrow> connectedSockets a = 0)
   \<and> (connectedSockets a \<ge> maxTcpSockets a \<longrightarrow>
         onConnection a s = (a, [SocketDestroy s]))
   \<and> (t \<in> set (closeOnce a) \<longrightarrow>
         connectedSockets (fst (socketClose a t)) = connectedSockets a - 1
         \<and> (\<forall>evs'. socketClose (fst (run (fst (socketClose a t)) evs')) t
                       = (fst (run (fst (socketClose a t)) evs'), [])))"
proof -
  define a where "a = fst (run (TunnelAgent_new opt) evs)"
  have cap: "maxTcpSockets a = maxTcpSockets (TunnelAgent_new opt)"
    unfolding a_def by (rule maxTcpSockets_run)
  have inv: "agent_inv a"
    unfolding a_def by (rule agent_inv_run [OF agent_inv_new])
  have lower: "0 \<le> connectedSockets a"
    using inv by (simp add: agent_inv_def)
  have upper: "0 \<le> maxTcpSockets a \<longrightarrow> connectedSockets a \<le> maxTcpSockets a"
  proof
    assume "0 \<le> maxTcpSockets a"
    then have "connectedSockets (TunnelAgent_new opt) \<le> maxTcpSockets (TunnelAgent_new opt)"
      unfolding cap by (simp add: TunnelAgent_new_def)
    from below_cap_run [OF this, of evs] show "connectedSockets a \<le> maxTcpSockets a"
      unfolding a_def by (simp add: maxTcpSockets_run)
  qed
  have none: "maxTcpSockets a < 0 \<longrightarrow> connectedSockets a = 0"
  proof
    assume "maxTcpSockets a < 0"
    then have "maxTcpSockets (TunnelAgent_new opt) < 0" unfolding cap .
    moreover have "connectedSockets (TunnelAgent_new opt) = 0" "closeOnce (TunnelAgent_new opt) = []"
      by (simp_all add: TunnelAgent_new_def)
    ultimately show "connectedSockets a = 0"
      unfolding a_def by (rule negative_cap_run)
  qed
  have full: "connectedSockets a \<ge> maxTcpSockets a \<longrightarrow> onConnection a s = (a, [SocketDestroy s])"
    by (simp add: onConnection_def)
  have once: "t \<in> set (closeOnce a) \<longrightarrow>
      connectedSockets (fst (socketClose a t)) = connectedSockets a - 1
      \<and> (\<forall>evs'. socketClose (fst (run (fst (socketClose a t)) evs')) t
                    = (fst (run (fst (socketClose a t)) evs'), []))"
  proof
    assume t: "t \<in> set (closeOnce a)"
    have "spent t (fst (socketClose a t))" by (rule spent_after_close [OF inv t])
    then have "\<And>evs'. spent t (fst (run (fst (socketClose a t)) evs'))" by (rule spent_run)
    then show "connectedSockets (fst (socketClose a t)) = connectedSockets a - 1
      \<and> (\<forall>evs'. socketClose (fst (run (fst (socketClose a t)) evs')) t
                    = (fst (run (fst (socketClose a t)) evs'), []))"
      using t by (simp add: socketClose_decrements socketClose_spent)
  qed
  from cap lower upper none full once show ?thesis
    unfolding a_def Let_def maxTcpSockets_new by blast
qed

theorem connectedSockets_bounded_witness:
  "(let a = fst (run (TunnelAgent_new (Some 1)) [Connection]) in
      0 \<le> maxTcpSockets a \<and> maxTcpSockets a = 1
    \<and> 0 \<le> connectedSockets a \<and> connectedSockets a \<le> maxTcpSockets a
    \<and> connectedSockets a \<ge> maxTcpSockets a
    \<and> onConnection a 1 = (a, [SocketDestroy 1])
    \<and> 0 \<in> set (closeOnce a)
    \<and> connectedSockets (fst (socketClose a 0)) = connectedSockets a - 1
    \<and> socketClose (fst (run (fst (socketClose a 0)) [Connection, SocketClose 1])) 0
        = (fst (run (fst (socketClose a 0)) [Connection, SocketClose 1]), []))
   \<and> (let b = fst (run (TunnelAgent_new (Some (- 1))) [Connection, Connection]) in
        maxTcpSockets b < 0 \<and> maxTcpSockets b = - 1 \<and> connectedSockets b = 0)"
proof -
  let ?a = "fst (run (TunnelAgent_new (Some 1)) [Connection])"
  let ?b = "fst (run (TunnelAgent_new (Some (- 1))) [Connection, Connection])"
  have a: "?a = (TunnelAgent_new (Some 1))
                 \<lparr>availableSockets := [0], connectedSockets := 1, closeOnce := [0],
                  errorOnce := [0], nextSocket := 1\<rparr>"
    by (simp add: TunnelAgent_new_def onConnection_def Let_def)
  have cap: "0 \<le> maxTcpSockets ?a" and cap1: "maxTcpSockets ?a = 1"
    and full: "maxTcpSockets ?a \<le> connectedSockets ?a"
    and live: "0 \<in> set (closeOnce ?a)"
    unfolding a by (simp_all add: TunnelAgent_new_def)
  have neg: "maxTcpSockets ?b < 0" and neg1: "maxTcpSockets ?b = - 1"
    unfolding maxTcpSockets_run by (simp_all add: TunnelAgent_new_def)
  note first = connectedSockets_bounded [of "Some 1" "[Connection]" 1 0, unfolded Let_def]
  note second =
    connectedSockets_bounded [of "Some (- 1)" "[Connection, Connection]" 0 0, unfolded Let_def]
  from first cap full live
  have "0 \<le> connectedSockets ?a \<and> connectedSockets ?a \<le> maxTcpSockets ?a
    \<and> onConnection ?a 1 = (?a, [SocketDestroy 1])
    \<and> connectedSockets (fst (socketClose ?a 0)) = connectedSockets ?a - 1
    \<and> socketClose (fst (run (fst (socketClose ?a 0)) [Connection, SocketClose 1])) 0
        = (fst (run (fst (socketClose ?a 0)) [Connection, SocketClose 1]), [])"
    by blast
  moreover from second neg have "connectedSockets ?b = 0" by blast
  ultimately show ?thesis
    unfolding Let_def using cap cap1 full live neg neg1 by blast
qed

text \<open>
  C6 as stated bounds \<open>connectedSockets\<close> by the cap for every agent. An agent built
  with the option -1 has the cap -1 and no socket, so the bound fails from the start.
\<close>

theorem negative_cap_breaks_bound:
  "connectedSockets (fst (run (TunnelAgent_new (Some (- 1))) [])) = 0
   \<and> maxTcpSockets (fst (run (TunnelAgent_new (Some (- 1))) [])) = - 1
   \<and> \<not> connectedSockets (fst (run (TunnelAgent_new (Some (- 1))) []))
         \<le> maxTcpSockets (fst (run (TunnelAgent_new (Some (- 1))) []))"
  by (simp add: TunnelAgent_new_def)

subsection \<open>Presence events\<close>

lemma edges_step:
  assumes "agent_inv a"
  shows "count_list (snd (step a e)) (Emit Online)
           = (if connectedSockets a = 0 \<and> connectedSockets (fst (step a e)) = 1 then 1 else 0)
       \<and> count_list (snd (step a e)) (Emit Offline)
           = (if connectedSockets a = 1 \<and> connectedSockets (fst (step a e)) = 0 then 1 else 0)"
proof (cases e)
  case Connection
  then show ?thesis using assms
    by (auto simp: agent_inv_def onConnection_def Let_def split: list.splits)
next
  case (SocketClose s)
  have "s \<in> set (closeOnce a) \<Longrightarrow> 1 \<le> connectedSockets a"
    using assms by (cases "closeOnce a") (auto simp: agent_inv_def)
  then show ?thesis using SocketClose
    by (auto simp: socketClose_def onSocketClose_def Let_def)
next
  case (SocketError s)
  then show ?thesis by (auto simp: socketError_def)
next
  case (CreateConnection cb)
  then show ?thesis by (auto simp: createConnection_def split: list.splits)
next
  case Destroy
  then show ?thesis by (simp add: destroy_def)
next
  case ServerClosed
  have "count_list (map (\<lambda>conn. Invoke conn (Some Closed) None) ws) (Emit ev) = 0" for ws ev
    by (induction ws) auto
  then show ?thesis using ServerClosed by (simp add: onClose_def)
next
  case Timeout
  then show ?thesis by (auto simp: runTimeout_def split: list.splits)
qed

text \<open>
  C3, as the code has it. For every sequence of events on an agent and every next
  event, \<open>online\<close> is emitted once if that event takes \<open>connectedSockets\<close> from 0 to 1
  and not at all otherwise, and \<open>offline\<close> is emitted once if that event takes
  \<open>connectedSockets\<close> from 1 to 0 and not at all otherwise. The \<open>closed\<close> flag plays no
  part: the listener of a socket's \<open>close\<close> does not read it.
\<close>

theorem online_offline_edges:
  "let a = fst (run (TunnelAgent_new opt) evs); r = step a e in
     count_list (snd r) (Emit Online)
       = (if connectedSockets a = 0 \<and> connectedSockets (fst r) = 1 then 1 else 0)
   \<and> count_list (snd r) (Emit Offline)
       = (if connectedSockets a = 1 \<and> connectedSockets (fst r) = 0 then 1 else 0)"
  unfolding Let_def
  by (rule edges_step [OF agent_inv_run [OF agent_inv_new]])

text \<open>
  C3 as stated asks that no \<open>offline\<close> is emitted once the agent is closed. After one
  socket has been accepted and the listener has closed, the agent is closed with one
  live socket, and that socket's \<open>close\<close> emits \<open>offline\<close>.
\<close>

theorem offline_while_closed:
  "closed (fst (run (TunnelAgent_new None) [Connection, ServerClosed]))
   \<and> connectedSockets (fst (run (TunnelAgent_new None) [Connection, ServerClosed])) = 1
   \<and> step (fst (run (TunnelAgent_new None) [Connection, ServerClosed])) (SocketClose 0)
       = (fst (run (TunnelAgent_new None) [Connection, ServerClosed, SocketClose 0]),
          [Emit Offline])"
  by (simp add: TunnelAgent_new_def DEFAULT_MAX_SOCKETS_def onConnection_def onClose_def
      socketClose_def onSocketClose_def Let_def)

subsection \<open>Order of delivery\<close>






subsection \<open>A closed agent\<close>

text \<open>
  C10. When \<open>createConnection\<close> is called on an agent whose \<open>closed\<close> flag is set, the
  callback is completed with the error \<open>closed\<close> within the call itself (the call's own
  effect list, no timer is set), and the agent's state, \<open>availableSockets\<close> and
  \<open>waitingCreateConn\<close> included, is what it was; no socket is handed to anyone.
\<close>

theorem createConnection_closed:
  assumes "closed a"
  shows "createConnection a cb = (a, [Invoke cb (Some Closed) None])"
  using assms by (simp add: createConnection_def)

theorem createConnection_closed_witness:
  "closed (fst (onClose (TunnelAgent_new None)))
   \<and> createConnection (fst (onClose (TunnelAgent_new None))) 7
       = (fst (onClose (TunnelAgent_new None)), [Invoke 7 (Some Closed) None])"
proof -
  have c: "closed (fst (onClose (TunnelAgent_new None)))"
    by (simp add: onClose_def)
  from createConnection_closed [OF c, of 7] c show ?thesis by simp
qed

lemma closed_step: "closed a \<Longrightarrow> closed (fst (step a e))"
  by (cases e)
     (auto simp: onConnection_def socketClose_def onSocketClose_def socketError_def
        createConnection_def destroy_def onClose_def runTimeout_def Let_def
        split: list.splits)

lemma no_waiters_step:
  "closed a \<Longrightarrow> waitingCreateConn a = [] \<Longrightarrow> waitingCreateConn (fst (step a e)) = []"
  by (cases e)
     (auto simp: onConnection_def socketClose_def onSocketClose_def socketError_def
        createConnection_def destroy_def onClose_def runTimeout_def Let_def
        split: list.splits)

lemma closed_run:
  "closed a \<Longrightarrow> waitingCreateConn a = [] \<Longrightarrow>
   closed (fst (run a es)) \<and> waitingCreateConn (fst (run a es)) = []"
proof (induction es arbitrary: a)
  case Nil then show ?case by simp
next
  case (Cons e es)
  then show ?case unfolding fst_run_Cons by (simp add: closed_step no_waiters_step)
qed

text \<open>
  C4, as the code has it. \<open>destroy\<close> changes no field of the agent: it asks the
  listener to close and calls \<open>http.Agent.destroy\<close>. When the listener's \<open>close\<close> event
  is handled, each queued waiter is completed with the error \<open>closed\<close>; from then on,
  whatever happens, the agent stays closed with no waiter queued, and every
  \<open>createConnection\<close> call is completed with the error \<open>closed\<close> and changes nothing.
\<close>

theorem closed_after_listener_close:
  "fst (step a Destroy) = a
   \<and> snd (step a ServerClosed)
       = map (\<lambda>conn. Invoke conn (Some Closed) None) (waitingCreateConn a) @ [Emit End]
   \<and> (let c = fst (run (fst (step a ServerClosed)) evs) in
        closed c \<and> waitingCreateConn c = []
        \<and> step c (CreateConnection cb) = (c, [Invoke cb (Some Closed) None]))"
proof -
  have "closed (fst (step a ServerClosed))" "waitingCreateConn (fst (step a ServerClosed)) = []"
    by (simp_all add: onClose_def)
  from closed_run [OF this, of evs] show ?thesis
    by (simp add: destroy_def onClose_def createConnection_def Let_def)
qed

text \<open>
  C4 as stated fails between \<open>destroy\<close> and the listener's \<open>close\<close> event, and for a
  delivery that is already scheduled. With one idle socket, \<open>destroy\<close> followed by
  \<open>createConnection\<close> hands that socket to the caller: nothing was torn down and no
  error is given. With one waiter, a socket that arrives is scheduled for it; after
  \<open>destroy\<close> and the listener's \<open>close\<close>, the timer still hands the socket over.
\<close>

theorem destroy_leaves_pool_open:
  "run (TunnelAgent_new None) [Connection, Destroy, CreateConnection 7]
     = ((TunnelAgent_new None)
          \<lparr>connectedSockets := 1, closeOnce := [0], errorOnce := [0], nextSocket := 1\<rparr>,
        [Emit Online, ServerClose, SuperDestroy, Invoke 7 None (Some 0)])
   \<and> snd (run (TunnelAgent_new None)
        [CreateConnection 7, Connection, Destroy, ServerClosed, Timeout])
     = [Emit Online, SetTimeout 7 0, ServerClose, SuperDestroy, Emit End,
        Invoke 7 None (Some 0)]"
  by (simp add: TunnelAgent_new_def DEFAULT_MAX_SOCKETS_def onConnection_def destroy_def
      createConnection_def onClose_def runTimeout_def Let_def)

section \<open>Properties of the client\<close>

lemma Client_close_twice: "fst (Client_close (fst (Client_close c))) = fst (Client_close c)"
  by (simp add: Client_close_def destroy_def)

lemma closeTimes_after_close: "fst (closeTimes n (fst (Client_close c))) = fst (Client_close c)"
  by (induction n) (simp_all add: split_beta Client_close_twice)

lemma count_close_once: "count_list (snd (Client_close c)) EmitClose = 1"
  by (simp add: Client_close_def destroy_def)

text \<open>
  C2, as the code has it. \<open>close\<close> has no guard: every call clears the timer, destroys
  the agent and emits \<open>close\<close>. So \<open>n\<close> calls emit \<open>close\<close> exactly \<open>n\<close> times, while the
  fields of the client after one or more calls are those after one call.
\<close>

theorem close_emits_every_time:
  "count_list (snd (closeTimes n c)) EmitClose = n
   \<and> fst (closeTimes (Suc n) c) = fst (Client_close c)"
proof
  show "count_list (snd (closeTimes n c)) EmitClose = n"
  proof (induction n arbitrary: c)
    case 0
    then show ?case by simp
  next
    case (Suc n)
    then show ?case by (simp add: split_beta count_close_once)
  qed
  show "fst (closeTimes (Suc n) c) = fst (Client_close c)"
    by (simp add: split_beta closeTimes_after_close)
qed

text \<open>
  C2 as stated asks for exactly one \<open>close\<close> event however often \<open>close\<close> is called. Two
  calls on a new client emit it twice.
\<close>

theorem close_twice_emits_twice:
  "count_list (snd (closeTimes 2 (Client_new ''a'' (TunnelAgent_new None)))) EmitClose = 2"
  by (simp add: numeral_2_eq_2 split_beta Client_close_def destroy_def)

section \<open>Properties of the forwarders\<close>

text \<open>
  C1. The claim: when the upstream request fails before the response headers were
  written, the external caller gets \<open>502 Bad Gateway\<close>. The code: on a fresh external
  response, the failure of the upstream request writes no status and no headers, and
  leaves the response as it was; \<open>headersSent\<close> is still false.
\<close>

theorem upstream_error_unanswered:
  "clientReqEvent \<lparr>headersSent = False, statusCode = 200\<rparr> UpstreamError
     = (\<lparr>headersSent = False, statusCode = 200\<rparr>, [])"
  by simp

lemma headerLoop_pairs:
  "headerLoop raw i arr
     = arr @ map (\<lambda>(name, val). name @ '': '' @ val) (headerPairs (drop i raw))"
proof (induction raw i arr rule: headerLoop.induct)
  case (1 raw i arr)
  show ?case
  proof (cases "int i < int (length raw) - 1")
    case True
    then have i: "i < length raw" "Suc i < length raw" by auto
    have "drop i raw = raw ! i # raw ! Suc i # drop (i + 2) raw"
      using i by (simp add: Cons_nth_drop_Suc)
    then show ?thesis
      using True "1.IH" [OF True] by (subst headerLoop.simps) simp
  next
    case False
    then have "headerPairs (drop i raw) = []"
    proof (cases "drop i raw")
      case Nil then show ?thesis by simp
    next
      case (Cons x xs)
      then have "length raw - i = Suc (length xs)"
        using length_drop [of i raw] by simp
      moreover from False have "length raw \<le> Suc i" by linarith
      ultimately have "length xs = 0" by linarith
      then have "xs = []" by simp
      with Cons show ?thesis by simp
    qed
    with False show ?thesis by (subst headerLoop.simps) simp
  qed
qed

lemma join_lines:
  "join sep (x # xs @ [[], []]) = x @ sep @ concat (map (\<lambda>l. l @ sep) xs) @ sep"
  by (induction xs arbitrary: x) auto

lemma prologue_eq:
  "prologue req
     = prologue_spec (method' req) (url req) (httpVersion req) (headerPairs (rawHeaders req))"
proof -
  have "concat (map (\<lambda>l. l @ CRLF) (map (\<lambda>(name, val). name @ '': '' @ val) ps))
          = concat (map (\<lambda>(name, val). name @ '': '' @ val @ CRLF) ps)" for ps
    by (induction ps) auto
  then show ?thesis
    by (simp add: prologue_def prologue_spec_def headerLoop_pairs join_lines)
qed

lemma utf8_append: "utf8 (xs @ ys) = utf8 xs @ utf8 ys"
  by (simp add: utf8_def)

lemma utf8_Nil: "utf8 [] = []"
  by (simp add: utf8_def)

lemma utf8_Cons: "utf8 (c # cs) = utf8_char c @ utf8 cs"
  by (simp add: utf8_def)

lemma length_utf8: "length (utf8 s) = length s + length (filter (\<lambda>c. \<not> (of_char c :: nat) < 128) s)"
  by (induction s) (simp_all add: utf8_Nil utf8_Cons utf8_char_def)

lemma utf8_ascii: "utf8 s = s \<longleftrightarrow> ascii s"
proof
  assume "ascii s"
  then show "utf8 s = s"
    by (induction s) (simp_all add: utf8_Nil utf8_Cons utf8_char_def ascii_def)
next
  assume eq: "utf8 s = s"
  have "length (filter (\<lambda>c. \<not> (of_char c :: nat) < 128) s) = 0"
    using length_utf8 [of s] unfolding eq by simp
  then show "ascii s"
    by (simp add: ascii_def list_all_iff filter_empty_conv)
qed

lemma utf8_fixed:
  "utf8 '' '' = '' ''" "utf8 '' HTTP/'' = '' HTTP/''" "utf8 '': '' = '': ''" "utf8 CRLF = CRLF"
  by (simp_all add: utf8_def utf8_char_def CRLF_def)

lemma utf8_prologue_spec:
  "utf8 (prologue_spec meth target version pairs)
     = prologue_spec (utf8 meth) (utf8 target) (utf8 version)
         (map (\<lambda>(name, val). (utf8 name, utf8 val)) pairs)"
proof -
  have "utf8 (concat (map (\<lambda>(name, val). name @ '': '' @ val @ CRLF) ps))
          = concat (map (\<lambda>(name, val). name @ '': '' @ val @ CRLF)
              (map (\<lambda>(name, val). (utf8 name, utf8 val)) ps))" for ps
    by (induction ps) (auto simp: utf8_append utf8_fixed utf8_Nil utf8_Cons utf8_char_def)
  then show ?thesis
    by (simp add: prologue_spec_def utf8_append utf8_fixed utf8_Cons utf8_char_def)
qed

text \<open>
  C9, as the code has it. When the agent hands over a socket without error and the
  external socket is still readable and writable, the callback first pipes the pooled
  socket into the external one and the external one into the pooled one, and then
  writes to the pooled socket the UTF-8 encoding of the prologue of the specification
  (the request line, each raw header pair in order as \<open>name: value\<close>, every line ended by
  CRLF, and a blank line). These bytes are the prologue built from the encoded method,
  URL, version and header names and values; they are the prologue itself, byte for
  byte, exactly when all its characters are below 0x80.
\<close>

theorem upgrade_prologue:
  assumes "readable socket" "writable socket"
  shows "upgradeCallback req socket None (Some c)
           = [PumpConnToSocket c, PumpSocketToConn c,
              ConnWrite c (utf8 (prologue_spec (method' req) (url req) (httpVersion req)
                                    (headerPairs (rawHeaders req))))]
       \<and> utf8 (prologue_spec (method' req) (url req) (httpVersion req)
                  (headerPairs (rawHeaders req)))
           = prologue_spec (utf8 (method' req)) (utf8 (url req)) (utf8 (httpVersion req))
               (map (\<lambda>(name, val). (utf8 name, utf8 val)) (headerPairs (rawHeaders req)))
       \<and> (utf8 (prologue_spec (method' req) (url req) (httpVersion req)
                   (headerPairs (rawHeaders req)))
            = prologue_spec (method' req) (url req) (httpVersion req)
                (headerPairs (rawHeaders req))
          \<longleftrightarrow> ascii (prologue_spec (method' req) (url req) (httpVersion req)
                        (headerPairs (rawHeaders req))))"
proof (intro conjI)
  show "upgradeCallback req socket None (Some c)
           = [PumpConnToSocket c, PumpSocketToConn c,
              ConnWrite c (utf8 (prologue_spec (method' req) (url req) (httpVersion req)
                                    (headerPairs (rawHeaders req))))]"
    using assms by (simp add: upgradeCallback_def prologue_eq)
  show "utf8 (prologue_spec (method' req) (url req) (httpVersion req)
                  (headerPairs (rawHeaders req)))
           = prologue_spec (utf8 (method' req)) (utf8 (url req)) (utf8 (httpVersion req))
               (map (\<lambda>(name, val). (utf8 name, utf8 val)) (headerPairs (rawHeaders req)))"
    by (rule utf8_prologue_spec)
  show "utf8 (prologue_spec (method' req) (url req) (httpVersion req)
                   (headerPairs (rawHeaders req)))
            = prologue_spec (method' req) (url req) (httpVersion req)
                (headerPairs (rawHeaders req))
          \<longleftrightarrow> ascii (prologue_spec (method' req) (url req) (httpVersion req)
                        (headerPairs (rawHeaders req)))"
    by (rule utf8_ascii)
qed

theorem upgrade_prologue_witness:
  "readable \<lparr>readable = True, writable = True\<rparr>
   \<and> writable \<lparr>readable = True, writable = True\<rparr>
   \<and> upgradeCallback
        \<lparr>method' = ''GET'', url = ''/ws'', httpVersion = ''1.1'', headers = [],
         rawHeaders = [''Host'', ''a.example'', ''Upgrade'', ''websocket'']\<rparr>
        \<lparr>readable = True, writable = True\<rparr> None (Some 3)
       = [PumpConnToSocket 3, PumpSocketToConn 3,
          ConnWrite 3
            (''GET /ws HTTP/1.1'' @ [CHR 0x0D, CHR 0x0A]
             @ ''Host: a.example'' @ [CHR 0x0D, CHR 0x0A]
             @ ''Upgrade: websocket'' @ [CHR 0x0D, CHR 0x0A]
             @ [CHR 0x0D, CHR 0x0A])]"
  using upgrade_prologue
    [of "\<lparr>readable = True, writable = True\<rparr>"
        "\<lparr>method' = ''GET'', url = ''/ws'', httpVersion = ''1.1'', headers = [],
          rawHeaders = [''Host'', ''a.example'', ''Upgrade'', ''websocket'']\<rparr>" 3]
  by (simp add: prologue_spec_def CRLF_def utf8_Cons utf8_Nil utf8_char_def)

lemma utf8_char_E9: "utf8_char (CHR 0xE9) = [CHR 0xC3, CHR 0xA9]"
  by code_simp

text \<open>
  C9 as stated has the raw headers on the wire as they are. A header value that is the
  one character 0xE9 is written as the two bytes 0xC3 0xA9.
\<close>

theorem upgrade_prologue_not_verbatim:
  "upgradeCallback
     \<lparr>method' = ''GET'', url = ''/'', httpVersion = ''1.1'', headers = [],
      rawHeaders = [''X'', [CHR 0xE9]]\<rparr>
     \<lparr>readable = True, writable = True\<rparr> None (Some 3)
     = [PumpConnToSocket 3, PumpSocketToConn 3,
        ConnWrite 3
          (''GET / HTTP/1.1'' @ [CHR 0x0D, CHR 0x0A]
           @ ''X: '' @ [CHR 0xC3, CHR 0xA9] @ [CHR 0x0D, CHR 0x0A]
           @ [CHR 0x0D, CHR 0x0A])]
   \<and> ''GET / HTTP/1.1'' @ [CHR 0x0D, CHR 0x0A]
       @ ''X: '' @ [CHR 0xC3, CHR 0xA9] @ [CHR 0x0D, CHR 0x0A] @ [CHR 0x0D, CHR 0x0A]
     \<noteq> prologue_spec ''GET'' ''/'' ''1.1'' [(''X'', [CHR 0xE9])]"
proof -
  have "utf8 (prologue_spec ''GET'' ''/'' ''1.1'' [(''X'', [CHR 0xE9])])
          = ''GET / HTTP/1.1'' @ [CHR 0x0D, CHR 0x0A]
            @ ''X: '' @ [CHR 0xC3, CHR 0xA9] @ [CHR 0x0D, CHR 0x0A] @ [CHR 0x0D, CHR 0x0A]"
    unfolding utf8_prologue_spec
    by (simp add: prologue_spec_def CRLF_def utf8_Cons utf8_Nil utf8_char_E9)
       (simp add: utf8_char_def)
  then show ?thesis
    by (simp add: upgradeCallback_def prologue_eq) (simp add: prologue_spec_def CRLF_def)
qed

section \<open>Properties of the client manager\<close>

lemma listen_new: "listen (TunnelAgent_new opt) = Inr ((TunnelAgent_new opt)\<lparr>started := True\<rparr>)"
  by (simp add: listen_def TunnelAgent_new_def)

text \<open>
  C8, as the code has it. In a call \<open>newClient(requested)\<close>, up to its \<open>await\<close>: if
  \<open>requested\<close> is not in the registry, \<open>hri.random()\<close> is not called and the identifier
  chosen is \<open>requested\<close>; if it is, \<open>hri.random()\<close> is called once and the identifier
  chosen is what it generated, whether or not that is in the registry. The new client
  (a new object; no existing object is changed) is registered under the chosen
  identifier, and every other entry of the registry is as it was: so all existing
  entries are untouched when the chosen identifier was not registered, and otherwise
  the entry under it is replaced by the new client. When \<open>listen\<close> then succeeds, the
  identifier returned is the chosen one, whatever happened to the manager in between,
  and \<open>hri.random()\<close> is not called again.
\<close>

theorem newClient_identifier:
  "let (m1, p) = newClient_begin m requested generated in
     chosenId p = (if hasClient m requested then generated else requested)
   \<and> hriCalls m1 = (if hasClient m requested then Suc (hriCalls m) else hriCalls m)
   \<and> getClient m1 (chosenId p) = Some (length (objects m))
   \<and> length (objects m1) = Suc (length (objects m))
   \<and> clientId (objects m1 ! length (objects m)) = chosenId p
   \<and> take (length (objects m)) (objects m1) = objects m
   \<and> (\<forall>k. k \<noteq> chosenId p \<longrightarrow> getClient m1 k = getClient m k)
   \<and> (\<not> hasClient m (chosenId p) \<longrightarrow> (\<forall>k. hasClient m k \<longrightarrow> getClient m1 k = getClient m k))
   \<and> (\<forall>m'. snd (newClient_settle m' p (Inr prt))
              = Inr \<lparr>id' = chosenId p, port = prt, max_conn_count = maxSockets p\<rparr>
            \<and> hriCalls (fst (newClient_settle m' p (Inr prt))) = hriCalls m')"
  by (auto simp: newClient_begin_def newClient_settle_def Let_def listen_new hasClient_def
      getClient_def update_conv' Client_new_def)

theorem newClient_identifier_witness:
  "(let (m1, p) = newClient_begin (fst (newClient_begin (ClientManager_new None) ''a'' ''x''))
                    ''a'' ''b'' in
      hasClient (fst (newClient_begin (ClientManager_new None) ''a'' ''x'')) ''a''
    \<and> \<not> hasClient (fst (newClient_begin (ClientManager_new None) ''a'' ''x'')) (chosenId p)
    \<and> ''a'' \<noteq> chosenId p
    \<and> chosenId p = ''b'' \<and> hriCalls m1 = 1
    \<and> getClient m1 ''b'' = Some 1 \<and> getClient m1 ''a'' = Some 0
    \<and> snd (newClient_settle m1 p (Inr 4000))
        = Inr \<lparr>id' = ''b'', port = 4000, max_conn_count = 10\<rparr>)"
proof -
  let ?m = "fst (newClient_begin (ClientManager_new None) ''a'' ''x'')"
  have m: "?m = \<lparr>max_tcp_sockets = None, clients = [(''a'', 0)], tunnels = 0,
                  objects = [\<lparr>clientId = ''a'',
                              agent = (TunnelAgent_new (Some 10))\<lparr>started := True\<rparr>,
                              graceTimeout = True, closeListener = Some ''a''\<rparr>],
                  hriCalls = 0\<rparr>"
    by (simp add: ClientManager_new_def newClient_begin_def Let_def listen_new hasClient_def
        Client_new_def)
  have has: "hasClient ?m ''a''" and fresh: "\<not> hasClient ?m ''b''"
    unfolding m by (simp_all add: hasClient_def)
  obtain m1 p where b: "newClient_begin ?m ''a'' ''b'' = (m1, p)"
    by (cases "newClient_begin ?m ''a'' ''b''")
  from newClient_identifier [of ?m "''a''" "''b''" 4000] has fresh
  have id: "chosenId p = ''b''" and calls: "hriCalls m1 = Suc (hriCalls ?m)"
    and new: "getClient m1 (chosenId p) = Some (length (objects ?m))"
    and other: "\<forall>k. k \<noteq> chosenId p \<longrightarrow> getClient m1 k = getClient ?m k"
    and ret: "snd (newClient_settle m1 p (Inr 4000))
        = Inr \<lparr>id' = chosenId p, port = 4000, max_conn_count = maxSockets p\<rparr>"
    unfolding b by auto
  have "maxSockets p = 10" using b unfolding m
    by (auto simp: newClient_begin_def Let_def listen_new hasClient_def)
  moreover have "getClient ?m ''a'' = Some 0" "hriCalls ?m = 0" "length (objects ?m) = 1"
    unfolding m by (simp_all add: getClient_def)
  moreover from other id have "getClient m1 ''a'' = getClient ?m ''a''" by simp
  ultimately show ?thesis
    using has fresh id calls new ret unfolding b by simp
qed

text \<open>
  C8 as stated leaves the existing client untouched in every call. The generated
  identifier is not checked against the registry: with \<open>a\<close> registered, a call
  \<open>newClient('a')\<close> for which \<open>hri.random()\<close> returns \<open>a\<close> again registers the new client
  under \<open>a\<close>, in place of the existing one.
\<close>

theorem second_collision_replaces:
  "getClient (fst (newClient_begin (ClientManager_new None) ''a'' ''x'')) ''a'' = Some 0
   \<and> chosenId (snd (newClient_begin
         (fst (newClient_begin (ClientManager_new None) ''a'' ''x'')) ''a'' ''a'')) = ''a''
   \<and> getClient (fst (newClient_begin
         (fst (newClient_begin (ClientManager_new None) ''a'' ''x'')) ''a'' ''a'')) ''a'' = Some 1"
  by (simp add: ClientManager_new_def newClient_begin_def Let_def listen_new hasClient_def
      getClient_def Client_new_def)

text \<open>
  C5. The claim: after every completed operation \<open>stats.tunnels\<close> equals the number of
  registered clients, also when \<open>listen\<close> fails or a client closes during creation. The
  code counts a client only after \<open>listen\<close> has succeeded but registers it before, and
  every removal uncounts. On a new manager, with \<open>newClient('a')\<close> begun: \<open>removeClient\<close>
  leaves the count at -1 with an empty registry (and the late success of \<open>listen\<close> then
  counts a client that is gone); so does the expiry of the client's grace timer; so
  does the failure of \<open>listen\<close>.
\<close>

theorem tunnels_out_of_step:
  "(let (m1, p) = newClient_begin (ClientManager_new None) ''a'' ''x'';
        m2 = removeClient m1 ''a''
    in tunnels m2 = - 1 \<and> clients m2 = []
       \<and> tunnels (fst (newClient_settle m2 p (Inr 4000))) = 0
       \<and> clients (fst (newClient_settle m2 p (Inr 4000))) = [])
   \<and> (let (m1, p) = newClient_begin (ClientManager_new None) ''a'' ''x'';
          m2 = graceTimeoutFired m1 0
      in tunnels m2 = - 1 \<and> clients m2 = [])
   \<and> (let (m1, p) = newClient_begin (ClientManager_new None) ''a'' ''x'';
          m2 = fst (newClient_settle m1 p (Inl Failed))
      in tunnels m2 = - 1 \<and> clients m2 = [])"
  by (simp add: ClientManager_new_def newClient_begin_def newClient_settle_def Let_def
      listen_new hasClient_def Client_new_def graceTimeoutFired_def
      removeClient.simps closeClient.simps Client_close_def destroy_def)

end
